theory Spec2Isabelle
  imports Main
begin

section \<open>The \<open>Action\<close> client component and its \<open>usePropsChangedKey\<close> hook\<close>

text \<open>
  The development embeds \<^verbatim>\<open>src/app/action.js\<close> (the component \<^verbatim>\<open>Action\<close>) and the hook
  \<^verbatim>\<open>usePropsChangedKey\<close> (listed in \<^verbatim>\<open>src/unnamed/part_000\<close>, lines 59 to 67).
  Both are written against the hooks of React 18 (production build, no strict-mode double
  effects). What the code relies on is made explicit:
  \<^item> \<^verbatim>\<open>useState(init)\<close> keeps one cell per component instance; \<^verbatim>\<open>init\<close> is used by the
    first render only, and a value passed to the setter is read by the next render;
  \<^item> \<^verbatim>\<open>useEffect(f, deps)\<close> runs \<^verbatim>\<open>f\<close> after the first render is committed, and after a
    later render exactly when \<^verbatim>\<open>deps\<close> differs from the dependency array of the render
    before, by React's comparison \<^verbatim>\<open>areHookInputsEqual\<close>; the array of every render is
    remembered for the next one; effects of one component run in the order of their hooks;
  \<^item> the function body (the render) only reads the cells; effects run after it.
\<close>

subsection \<open>Values, content and props\<close>

text \<open>
  JavaScript values as far as the comparison of dependencies tells them apart: primitives
  are compared by value, objects by their address. The fields of an object are kept so that
  two objects with the same contents at different addresses can be written down.
\<close>

datatype jsval =
    Undefined
  | Num int
  | Str string
  | Obj nat "(string \<times> int) list"

text \<open>\<^verbatim>\<open>Object.is\<close>, the comparison React applies to each dependency.\<close>

fun object_is :: "jsval \<Rightarrow> jsval \<Rightarrow> bool" where
  "object_is Undefined Undefined = True"
| "object_is (Num a) (Num b) = (a = b)"
| "object_is (Str a) (Str b) = (a = b)"
| "object_is (Obj a f) (Obj b g) = (a = b)"
| "object_is _ _ = False"

text \<open>Equality of contents, whatever the address: what "value-equal" means for a caller.\<close>

fun value_equal :: "jsval \<Rightarrow> jsval \<Rightarrow> bool" where
  "value_equal (Obj a f) (Obj b g) = (f = g)"
| "value_equal x y = (x = y)"

text \<open>
  A producer is a function reference; the unit of work returned by its \<open>n\<close>-th invocation
  (counting from 0, over the life of the instance) is the promise \<open>n\<close>.
\<close>

type_synonym producer = nat
type_synonym promise = nat

text \<open>
  Renderable content: a fragment of text, or the element
  \<^verbatim>\<open><Suspense fallback={fb}>{promise}</Suspense>\<close>.
\<close>

datatype content =
    Fragment string
  | Suspense content promise

text \<open>
  The props object received by \<^verbatim>\<open>Action\<close>, as its parameter destructures it:
  \<^verbatim>\<open>{ action, children = <>loading...</>, ...props }\<close>. \<open>children = None\<close> is an omitted
  (undefined) prop; \<open>props\<close> lists the remaining own properties in enumeration order.
\<close>

record Action_props =
  action :: producer
  children :: "content option"
  props :: "(string \<times> jsval) list"

definition Object_values :: "(string \<times> jsval) list \<Rightarrow> jsval list" where
  "Object_values o_props = map snd o_props"

text \<open>The default of the parameter \<^verbatim>\<open>children\<close> (action.js, line 8).\<close>

definition children_or_default :: "Action_props \<Rightarrow> content" where
  "children_or_default p =
     (case children p of None \<Rightarrow> Fragment ''loading...'' | Some c \<Rightarrow> c)"

subsection \<open>Hook cells of one instance\<close>

text \<open>
  The cells of one mounted \<^verbatim>\<open>Action\<close>, in the order of the hook calls: the state \<^verbatim>\<open>JSX\<close>
  (action.js, line 11), the state \<^verbatim>\<open>propsChangedKey\<close> (hook, line 60), the dependencies
  remembered for the hook's effect (\<^verbatim>\<open>[...args]\<close>, line 64) and for the component's effect
  (\<^verbatim>\<open>[propsChangedKey]\<close>, action.js line 16). \<open>None\<close> stands for "no render committed yet".
  \<open>calls\<close> is a log of the producer invocations made so far, each with the producer
  reference and the argument it received.
\<close>

record hooks =
  JSX :: content
  propsChangedKey :: nat
  args_deps :: "jsval list option"
  key_deps :: "jsval list option"
  calls :: "(producer \<times> (string \<times> jsval) list) list"

text \<open>
  React's \<^verbatim>\<open>areHookInputsEqual(nextDeps, prevDeps)\<close>: the loop
  \<^verbatim>\<open>for (i = 0; i < prevDeps.length && i < nextDeps.length; i++)\<close> returns false at the
  first position where \<^verbatim>\<open>Object.is\<close> fails and true when it ends. Positions that only one
  of the two arrays has are not looked at.
\<close>

fun areHookInputsEqual :: "jsval list \<Rightarrow> jsval list \<Rightarrow> bool" where
  "areHookInputsEqual (x # xs) (y # ys) = (object_is x y \<and> areHookInputsEqual xs ys)"
| "areHookInputsEqual _ _ = True"

text \<open>Whether an effect with dependencies \<open>next\<close> runs after this render.\<close>

definition effect_runs :: "jsval list \<Rightarrow> jsval list option \<Rightarrow> bool" where
  "effect_runs next prev =
     (case prev of None \<Rightarrow> True | Some d \<Rightarrow> \<not> areHookInputsEqual next d)"

subsection \<open>The hook and the component\<close>

text \<open>
  \<^verbatim>\<open>usePropsChangedKey(...args)\<close>: returns the key read by this render (line 66), together
  with the cells as they are once the effect of lines 62 to 64 has had its turn: the
  updater \<^verbatim>\<open>k => k + 1\<close> is applied when the effect runs, and \<^verbatim>\<open>[...args]\<close> is remembered.
\<close>

definition usePropsChangedKey :: "jsval list \<Rightarrow> hooks \<Rightarrow> nat \<times> hooks" where
  "usePropsChangedKey args s =
     (propsChangedKey s,
      s\<lparr>propsChangedKey :=
          (if effect_runs args (args_deps s) then propsChangedKey s + 1
           else propsChangedKey s),
        args_deps := Some args\<rparr>)"

text \<open>
  One render of \<^verbatim>\<open>Action\<close> with its effects: the result is the element returned by the
  render (\<^verbatim>\<open>return JSX\<close>, line 18, the cell as this render reads it) and the cells after
  the effects. The effect of lines 14 to 16 calls \<^verbatim>\<open>action(props)\<close>, which is logged and
  yields the next promise, and sets \<^verbatim>\<open>JSX\<close> to the \<^verbatim>\<open>Suspense\<close> element around it, with
  the \<^verbatim>\<open>children\<close> of this render as fallback.
\<close>

definition Action :: "Action_props \<Rightarrow> hooks \<Rightarrow> content \<times> hooks" where
  "Action p s =
     (let fallback = children_or_default p;
          (propsChangedKey_read, s1) = usePropsChangedKey (Object_values (props p)) s;
          deps = [Num (int propsChangedKey_read)];
          s2 = (if effect_runs deps (key_deps s1)
                then s1\<lparr>JSX := Suspense fallback (length (calls s1)),
                        calls := calls s1 @ [(action p, props p)]\<rparr>
                else s1)
      in (JSX s, s2\<lparr>key_deps := Some deps\<rparr>))"

text \<open>
  The cells of a fresh instance, as the initial values of the two \<^verbatim>\<open>useState\<close> calls give
  them for the first render with props \<open>p\<close>.
\<close>

definition fresh :: "Action_props \<Rightarrow> hooks" where
  "fresh p = \<lparr>JSX = children_or_default p, propsChangedKey = 0,
              args_deps = None, key_deps = None, calls = []\<rparr>"

definition rendered :: "Action_props \<Rightarrow> hooks \<Rightarrow> content" where
  "rendered p s = fst (Action p s)"

definition cycle :: "Action_props \<Rightarrow> hooks \<Rightarrow> hooks" where
  "cycle p s = snd (Action p s)"

definition mount :: "Action_props \<Rightarrow> hooks" where
  "mount p = cycle p (fresh p)"

text \<open>A sequence of render cycles, one per element of the list, oldest first.\<close>

fun run :: "Action_props list \<Rightarrow> hooks \<Rightarrow> hooks" where
  "run [] s = s"
| "run (p # ps) s = run ps (cycle p s)"

text \<open>
  A sequence of renders none of which shows the hook a change: the arguments of each are
  equal, by React's comparison, to those of the render before it (\<open>d\<close> for the first).
\<close>

fun no_change_observed :: "jsval list \<Rightarrow> Action_props list \<Rightarrow> bool" where
  "no_change_observed d [] = True"
| "no_change_observed d (q # qs) =
     (areHookInputsEqual (Object_values (props q)) d
      \<and> no_change_observed (Object_values (props q)) qs)"

text \<open>
  Modelled from the spec: the rendering host's suspension wrapper (React's \<^verbatim>\<open>Suspense\<close>,
  not part of this repository), "showing the fallback until settlement and the result
  afterward". \<open>settled n\<close> is the value promise \<open>n\<close> has settled to, if it has.
\<close>

fun display :: "(promise \<Rightarrow> content option) \<Rightarrow> content \<Rightarrow> content" where
  "display settled (Fragment t) = Fragment t"
| "display settled (Suspense fb n) =
     (case settled n of None \<Rightarrow> display settled fb | Some v \<Rightarrow> v)"

text \<open>
  A state of the outstanding work in which the promise \<open>n\<close> alone has settled, to \<open>v\<close>.
\<close>

definition only_settled :: "promise \<Rightarrow> content \<Rightarrow> promise \<Rightarrow> content option" where
  "only_settled n v m = (if m = n then Some v else None)"

section \<open>Basic facts about one cycle\<close>

lemma cycle_key:
  "propsChangedKey (cycle p s) =
     (if effect_runs (Object_values (props p)) (args_deps s) then propsChangedKey s + 1
      else propsChangedKey s)"
  by (simp add: cycle_def Action_def usePropsChangedKey_def Let_def)

lemma cycle_args_deps: "args_deps (cycle p s) = Some (Object_values (props p))"
  by (simp add: cycle_def Action_def usePropsChangedKey_def Let_def)

lemma cycle_key_deps: "key_deps (cycle p s) = Some [Num (int (propsChangedKey s))]"
  by (simp add: cycle_def Action_def usePropsChangedKey_def Let_def)

lemma cycle_calls:
  "calls (cycle p s) =
     (if effect_runs [Num (int (propsChangedKey s))] (key_deps s)
      then calls s @ [(action p, props p)] else calls s)"
  by (simp add: cycle_def Action_def usePropsChangedKey_def Let_def)

lemma cycle_JSX:
  "JSX (cycle p s) =
     (if effect_runs [Num (int (propsChangedKey s))] (key_deps s)
      then Suspense (children_or_default p) (length (calls s)) else JSX s)"
  by (simp add: cycle_def Action_def usePropsChangedKey_def Let_def)

lemma rendered_JSX: "rendered p s = JSX s"
  by (simp add: rendered_def Action_def usePropsChangedKey_def Let_def)

lemma effect_runs_key:
  "effect_runs [Num (int k)] (Some [Num (int j)]) = (k \<noteq> j)"
  by (simp add: effect_runs_def)

section \<open>The comparison of dependencies\<close>

lemma object_is_refl: "object_is x x"
  by (cases x) simp_all

lemma areHookInputsEqual_refl: "areHookInputsEqual xs xs"
  by (induction xs) (simp_all add: object_is_refl)

lemma areHookInputsEqual_nth:
  "areHookInputsEqual xs ys =
     (\<forall>i. i < length xs \<and> i < length ys \<longrightarrow> object_is (xs ! i) (ys ! i))"
proof (induction xs ys rule: areHookInputsEqual.induct)
  case (1 x xs y ys)
  show ?case
  proof
    assume h: "areHookInputsEqual (x # xs) (y # ys)"
    show "\<forall>i. i < length (x # xs) \<and> i < length (y # ys) \<longrightarrow> object_is ((x # xs) ! i) ((y # ys) ! i)"
    proof (intro allI impI)
      fix i assume "i < length (x # xs) \<and> i < length (y # ys)"
      with h 1 show "object_is ((x # xs) ! i) ((y # ys) ! i)"
        by (cases i) auto
    qed
  next
    assume h: "\<forall>i. i < length (x # xs) \<and> i < length (y # ys) \<longrightarrow> object_is ((x # xs) ! i) ((y # ys) ! i)"
    from h have "object_is x y" by force
    moreover from h have "\<forall>i. i < length xs \<and> i < length ys \<longrightarrow> object_is (xs ! i) (ys ! i)"
      by force
    ultimately show "areHookInputsEqual (x # xs) (y # ys)" using 1 by simp
  qed
qed simp_all

lemma list_all2_areHookInputsEqual:
  "list_all2 object_is xs ys \<Longrightarrow> areHookInputsEqual xs ys"
  by (induction xs ys rule: list_all2_induct) simp_all

text \<open>
  The producer is invoked in a cycle exactly when the effect of the hook ran in the cycle
  before: the key read now then differs from the key read there.
\<close>

lemma cycle2_calls:
  "calls (cycle q (cycle p s)) =
     (if effect_runs (Object_values (props p)) (args_deps s)
      then calls (cycle p s) @ [(action q, props q)] else calls (cycle p s))"
  by (simp add: cycle_calls [of q] cycle_key_deps cycle_key effect_runs_key)

lemma cycle_settled:
  "key_deps (cycle p s) = Some [Num (int (propsChangedKey (cycle p s)))]
     \<longleftrightarrow> \<not> effect_runs (Object_values (props p)) (args_deps s)"
  by (simp add: cycle_key_deps cycle_key)

lemma run_no_change_key:
  "args_deps s = Some d \<Longrightarrow> no_change_observed d qs \<Longrightarrow>
     propsChangedKey (run qs s) = propsChangedKey s"
proof (induction qs arbitrary: s d)
  case Nil
  then show ?case by simp
next
  case (Cons q qs)
  have "propsChangedKey (cycle q s) = propsChangedKey s"
    using Cons.prems by (simp add: cycle_key effect_runs_def)
  moreover have "propsChangedKey (run qs (cycle q s)) = propsChangedKey (cycle q s)"
    using Cons.prems by (intro Cons.IH [of _ "Object_values (props q)"]) (simp_all add: cycle_args_deps)
  ultimately show ?case by simp
qed

lemma run_no_change_settled:
  "args_deps s = Some d \<Longrightarrow> key_deps s = Some [Num (int (propsChangedKey s))] \<Longrightarrow>
   no_change_observed d qs \<Longrightarrow>
     calls (run qs s) = calls s \<and> JSX (run qs s) = JSX s
     \<and> key_deps (run qs s) = Some [Num (int (propsChangedKey (run qs s)))]"
proof (induction qs arbitrary: s d)
  case Nil
  then show ?case by simp
next
  case (Cons q qs)
  have k: "propsChangedKey (cycle q s) = propsChangedKey s"
    using Cons.prems by (simp add: cycle_key effect_runs_def)
  have c: "calls (cycle q s) = calls s" "JSX (cycle q s) = JSX s"
    using Cons.prems by (simp_all add: cycle_calls cycle_JSX effect_runs_key)
  have "calls (run qs (cycle q s)) = calls (cycle q s) \<and> JSX (run qs (cycle q s)) = JSX (cycle q s)
     \<and> key_deps (run qs (cycle q s)) = Some [Num (int (propsChangedKey (run qs (cycle q s))))]"
    using Cons.prems k
    by (intro Cons.IH [of _ "Object_values (props q)"]) (simp_all add: cycle_args_deps cycle_key_deps)
  with c show ?case by simp
qed

lemma run_key_mono: "propsChangedKey s \<le> propsChangedKey (run ps s)"
proof (induction ps arbitrary: s)
  case Nil
  then show ?case by simp
next
  case (Cons p ps)
  have "propsChangedKey s \<le> propsChangedKey (cycle p s)" by (simp add: cycle_key)
  also have "\<dots> \<le> propsChangedKey (run ps (cycle p s))" by (rule Cons.IH)
  finally show ?case by simp
qed

text \<open>
  Over the life of an instance the number of producer invocations and the key stay
  together: one invocation at mount, and one more for each advance of the key that a
  render has read, so the count is the key, or the key plus one once the last advance
  has been read.
\<close>

lemma invocations_cycle:
  assumes "key_deps s = Some [Num (int k)]" and "length (calls s) = Suc k"
    and "propsChangedKey s = k \<or> propsChangedKey s = Suc k"
  shows "key_deps (cycle p s) = Some [Num (int (propsChangedKey s))]
     \<and> length (calls (cycle p s)) = Suc (propsChangedKey s)
     \<and> (propsChangedKey (cycle p s) = propsChangedKey s
        \<or> propsChangedKey (cycle p s) = Suc (propsChangedKey s))"
  using assms by (auto simp add: cycle_key_deps cycle_calls cycle_key effect_runs_key)

lemma invocations_run:
  assumes "key_deps s = Some [Num (int k)]" and "length (calls s) = Suc k"
    and "propsChangedKey s = k \<or> propsChangedKey s = Suc k"
  shows "length (calls (run ps s)) \<le> Suc (propsChangedKey (run ps s))
     \<and> propsChangedKey (run ps s) \<le> length (calls (run ps s))"
  using assms
proof (induction ps arbitrary: s k)
  case Nil
  then show ?case by auto
next
  case (Cons p ps)
  from invocations_cycle [OF Cons.prems, of p] show ?case
    using Cons.IH [of "cycle p s" "propsChangedKey s"] by simp
qed

lemma lifetime_invocations:
  "length (calls (run ps (mount p))) \<le> Suc (propsChangedKey (run ps (mount p)))
   \<and> propsChangedKey (run ps (mount p)) \<le> length (calls (run ps (mount p)))"
  by (rule invocations_run [of _ 0])
     (simp_all add: mount_def cycle_key_deps cycle_calls cycle_key fresh_def effect_runs_def)

section \<open>Claims\<close>

text \<open>
  C1. For every advance of the version key the producer is invoked exactly once, with
  the named-input bag of the render that reads the advanced key, passed as it is: of two
  consecutive cycles, the second appends exactly one call \<open>(action q, props q)\<close> when the
  first advanced the key, and none otherwise.
\<close>

theorem C1_one_invocation_per_advance:
  "calls (cycle q (cycle p s)) =
     (if propsChangedKey (cycle p s) \<noteq> propsChangedKey s
      then calls (cycle p s) @ [(action q, props q)]
      else calls (cycle p s))"
  by (simp add: cycle2_calls cycle_key)

text \<open>
  At a concrete lifetime: mount with \<^verbatim>\<open>userId = 1\<close>, the re-render that reads key 1, then
  two renders with \<^verbatim>\<open>userId = 2\<close>; the advance to key 2 gives one call with the new bag.
\<close>

theorem C1_one_invocation_per_advance_witness:
  "calls (cycle \<lparr>action = 7, children = None, props = [(''userId'', Num 2)]\<rparr>
            (cycle \<lparr>action = 7, children = None, props = [(''userId'', Num 2)]\<rparr>
               (cycle \<lparr>action = 7, children = None, props = [(''userId'', Num 1)]\<rparr>
                  (mount \<lparr>action = 7, children = None, props = [(''userId'', Num 1)]\<rparr>))))
   = [(7, [(''userId'', Num 1)]), (7, [(''userId'', Num 1)]), (7, [(''userId'', Num 2)])]"
  using C1_one_invocation_per_advance
    [of "\<lparr>action = 7, children = None, props = [(''userId'', Num 2)]\<rparr>"
        "\<lparr>action = 7, children = None, props = [(''userId'', Num 2)]\<rparr>"
        "cycle \<lparr>action = 7, children = None, props = [(''userId'', Num 1)]\<rparr>
           (mount \<lparr>action = 7, children = None, props = [(''userId'', Num 1)]\<rparr>)"]
  by (simp add: cycle_calls cycle_key cycle_key_deps cycle_args_deps mount_def fresh_def
      effect_runs_def Object_values_def)

text \<open>
  C2, as stated: a re-render with an unchanged input list and the same producer never
  triggers an invocation. It does at the first re-render after a mount: the effect of the
  hook has advanced the key to 1 (see C3), the component's effect is keyed on the key, and
  the render that reads 1 calls the producer again, with the very props of the mount.
\<close>

theorem C2_rerender_after_mount_counterexample:
  "areHookInputsEqual (Object_values [(''userId'', Num 1)]) (Object_values [(''userId'', Num 1)])
   \<and> calls (cycle \<lparr>action = 0, children = None, props = [(''userId'', Num 1)]\<rparr>
        (mount \<lparr>action = 0, children = None, props = [(''userId'', Num 1)]\<rparr>))
     = calls (mount \<lparr>action = 0, children = None, props = [(''userId'', Num 1)]\<rparr>)
         @ [(0, [(''userId'', Num 1)])]"
  by (simp add: mount_def fresh_def cycle_calls cycle_key cycle_key_deps effect_runs_def
      Object_values_def)

text \<open>
  C2, amended: a re-render whose input list is unchanged (React's positional
  \<^verbatim>\<open>Object.is\<close> comparison with the list of the render before) never advances the key.
  Over any sequence of such re-renders the producer is invoked exactly once, in the first
  of them, when an advance of the key made by an earlier cycle has not been read yet (the
  key differs from the key \<open>k\<close> the component's effect last saw), which is the case after
  every mount; and not at all otherwise. The producer reference plays no part: a stable
  one, or a new one, by itself never causes an invocation.
\<close>

theorem C2_unchanged_rerenders_exact:
  assumes "args_deps s = Some d"
    and "key_deps s = Some [Num (int k)]"
    and "no_change_observed d (q # qs)"
  shows "propsChangedKey (run (q # qs) s) = propsChangedKey s
     \<and> calls (run (q # qs) s) =
         (if propsChangedKey s = k then calls s else calls s @ [(action q, props q)])"
proof -
  have e: "\<not> effect_runs (Object_values (props q)) (args_deps s)"
    using assms by (simp add: effect_runs_def)
  have k: "propsChangedKey (run (q # qs) s) = propsChangedKey s"
    using assms(1,3) by (rule run_no_change_key)
  have "key_deps (cycle q s) = Some [Num (int (propsChangedKey (cycle q s)))]"
    using e by (simp add: cycle_settled)
  moreover have "no_change_observed (Object_values (props q)) qs"
    using assms(3) by simp
  ultimately have c: "calls (run (q # qs) s) = calls (cycle q s)"
    using run_no_change_settled [of "cycle q s" "Object_values (props q)" qs]
    by (simp add: cycle_args_deps)
  have "calls (cycle q s) =
      (if propsChangedKey s = k then calls s else calls s @ [(action q, props q)])"
    using assms(2) by (simp add: cycle_calls effect_runs_key)
  with k c show ?thesis by simp
qed

theorem C2_unchanged_rerenders_exact_witness:
  "args_deps (mount \<lparr>action = 0, children = None, props = [(''userId'', Num 1)]\<rparr>)
     = Some [Num 1]
   \<and> key_deps (mount \<lparr>action = 0, children = None, props = [(''userId'', Num 1)]\<rparr>)
     = Some [Num (int 0)]
   \<and> no_change_observed [Num 1]
        [\<lparr>action = 0, children = None, props = [(''userId'', Num 1)]\<rparr>,
         \<lparr>action = 0, children = None, props = [(''userId'', Num 1)]\<rparr>,
         \<lparr>action = 0, children = None, props = [(''userId'', Num 1)]\<rparr>]
   \<and> calls (run [\<lparr>action = 0, children = None, props = [(''userId'', Num 1)]\<rparr>,
                 \<lparr>action = 0, children = None, props = [(''userId'', Num 1)]\<rparr>,
                 \<lparr>action = 0, children = None, props = [(''userId'', Num 1)]\<rparr>]
              (mount \<lparr>action = 0, children = None, props = [(''userId'', Num 1)]\<rparr>))
     = [(0, [(''userId'', Num 1)]), (0, [(''userId'', Num 1)])]
   \<and> key_deps (cycle \<lparr>action = 0, children = None, props = [(''userId'', Num 1)]\<rparr>
        (mount \<lparr>action = 0, children = None, props = [(''userId'', Num 1)]\<rparr>))
     = Some [Num (int 1)]
   \<and> calls (run [\<lparr>action = 0, children = None, props = [(''userId'', Num 1)]\<rparr>,
                 \<lparr>action = 0, children = None, props = [(''userId'', Num 1)]\<rparr>]
              (cycle \<lparr>action = 0, children = None, props = [(''userId'', Num 1)]\<rparr>
                 (mount \<lparr>action = 0, children = None, props = [(''userId'', Num 1)]\<rparr>)))
     = [(0, [(''userId'', Num 1)]), (0, [(''userId'', Num 1)])]"
  using C2_unchanged_rerenders_exact
    [of "mount \<lparr>action = 0, children = None, props = [(''userId'', Num 1)]\<rparr>"
        "[Num 1]" 0
        "\<lparr>action = 0, children = None, props = [(''userId'', Num 1)]\<rparr>"
        "[\<lparr>action = 0, children = None, props = [(''userId'', Num 1)]\<rparr>,
          \<lparr>action = 0, children = None, props = [(''userId'', Num 1)]\<rparr>]"]
    C2_unchanged_rerenders_exact
    [of "cycle \<lparr>action = 0, children = None, props = [(''userId'', Num 1)]\<rparr>
           (mount \<lparr>action = 0, children = None, props = [(''userId'', Num 1)]\<rparr>)"
        "[Num 1]" 1
        "\<lparr>action = 0, children = None, props = [(''userId'', Num 1)]\<rparr>"
        "[\<lparr>action = 0, children = None, props = [(''userId'', Num 1)]\<rparr>]"]
  by (simp add: mount_def fresh_def cycle_calls cycle_key cycle_key_deps cycle_args_deps
      effect_runs_def Object_values_def)

text \<open>
  C3, as stated: the key is 0 after the first render-and-effect cycle. It is not: the
  effect of \<^verbatim>\<open>usePropsChangedKey\<close> runs after the first render, as every effect does, and
  nothing in the hook skips that run; after mounting \<^verbatim>\<open><Action action={greeting} userId={1} />\<close>
  the key is 1.
\<close>

theorem C3_key_stays_zero_counterexample:
  "propsChangedKey (fresh \<lparr>action = 0, children = None, props = [(''userId'', Num 1)]\<rparr>) = 0
   \<and> propsChangedKey (mount \<lparr>action = 0, children = None, props = [(''userId'', Num 1)]\<rparr>) \<noteq> 0"
  by (simp add: mount_def fresh_def cycle_key effect_runs_def)

text \<open>
  C3, amended: the key is created at 0 and the first render reads 0; the effect of the
  first cycle increments it, so it is 1 after that cycle, and it remains 1 over every
  sequence of renders in which no change of the input list is observed.
\<close>

theorem C3_key_after_first_cycle:
  "propsChangedKey (fresh p) = 0
   \<and> fst (usePropsChangedKey (Object_values (props p)) (fresh p)) = 0
   \<and> propsChangedKey (mount p) = 1
   \<and> (no_change_observed (Object_values (props p)) qs \<longrightarrow>
        propsChangedKey (run qs (mount p)) = 1)"
proof -
  have m: "propsChangedKey (mount p) = 1"
    by (simp add: mount_def cycle_key fresh_def effect_runs_def)
  have "propsChangedKey (run qs (mount p)) = 1"
    if "no_change_observed (Object_values (props p)) qs"
    using run_no_change_key [of "mount p" "Object_values (props p)" qs] that m
    by (simp add: mount_def cycle_args_deps)
  with m show ?thesis
    by (simp add: fresh_def usePropsChangedKey_def)
qed

theorem C3_key_after_first_cycle_witness:
  "no_change_observed (Object_values [(''userId'', Num 1)])
     [\<lparr>action = 0, children = None, props = [(''userId'', Num 1)]\<rparr>,
      \<lparr>action = 0, children = None, props = [(''userId'', Num 1)]\<rparr>]
   \<and> propsChangedKey
       (run [\<lparr>action = 0, children = None, props = [(''userId'', Num 1)]\<rparr>,
             \<lparr>action = 0, children = None, props = [(''userId'', Num 1)]\<rparr>]
          (mount \<lparr>action = 0, children = None, props = [(''userId'', Num 1)]\<rparr>)) = 1"
  using C3_key_after_first_cycle
    [of "\<lparr>action = 0, children = None, props = [(''userId'', Num 1)]\<rparr>"
        "[\<lparr>action = 0, children = None, props = [(''userId'', Num 1)]\<rparr>,
          \<lparr>action = 0, children = None, props = [(''userId'', Num 1)]\<rparr>]"]
  by (simp add: Object_values_def)

text \<open>
  C4, as stated: the key grows by 1 in the cycle after the input set changes and by 0 in
  cycles with no change. Two cycles do otherwise: the first cycle of an instance raises
  the key from 0 to 1 although nothing has changed, and a cycle whose input list only
  grew by a prop \<^verbatim>\<open>b\<close> (a changed input set) leaves the key as it was.
\<close>

theorem C4_key_step_counterexample:
  "propsChangedKey (cycle \<lparr>action = 0, children = None, props = [(''a'', Num 1)]\<rparr>
       (fresh \<lparr>action = 0, children = None, props = [(''a'', Num 1)]\<rparr>))
     = propsChangedKey (fresh \<lparr>action = 0, children = None, props = [(''a'', Num 1)]\<rparr>) + 1
   \<and> Object_values [(''a'', Num 1), (''b'', Num 2)] \<noteq> Object_values [(''a'', Num 1)]
   \<and> propsChangedKey
        (cycle \<lparr>action = 0, children = None, props = [(''a'', Num 1), (''b'', Num 2)]\<rparr>
           (mount \<lparr>action = 0, children = None, props = [(''a'', Num 1)]\<rparr>))
     = propsChangedKey (mount \<lparr>action = 0, children = None, props = [(''a'', Num 1)]\<rparr>)"
  by (simp add: mount_def fresh_def cycle_key cycle_args_deps effect_runs_def Object_values_def)

text \<open>
  C4, amended: the key is monotone. Over any sequence of cycles it never decreases, so
  it is never reset. The first cycle of an instance raises it by exactly 1. Every later
  cycle raises it by exactly 1 when, at some position present in both this render's input
  list and the list of the render just before, the elements differ by \<^verbatim>\<open>Object.is\<close>,
  and by 0 otherwise (a difference of length alone included); the render after the cycle
  reads the new value.
\<close>

theorem C4_key_monotone:
  "propsChangedKey s \<le> propsChangedKey (run ps s)
   \<and> propsChangedKey (cycle p (fresh p)) = propsChangedKey (fresh p) + 1
   \<and> propsChangedKey (cycle q (cycle p s)) =
       propsChangedKey (cycle p s)
       + (if (\<exists>i. i < length (Object_values (props q)) \<and> i < length (Object_values (props p))
                \<and> \<not> object_is (Object_values (props q) ! i) (Object_values (props p) ! i))
          then 1 else 0)
   \<and> fst (usePropsChangedKey args (cycle p s)) = propsChangedKey (cycle p s)"
proof -
  have a: "propsChangedKey s \<le> propsChangedKey (run ps s)"
    by (rule run_key_mono)
  have b: "propsChangedKey (cycle p (fresh p)) = propsChangedKey (fresh p) + 1"
    by (simp add: cycle_key fresh_def effect_runs_def)
  have "propsChangedKey (cycle q (cycle p s)) =
       propsChangedKey (cycle p s)
       + (if areHookInputsEqual (Object_values (props q)) (Object_values (props p))
          then 0 else 1)"
    by (simp add: cycle_key [of q] cycle_args_deps effect_runs_def)
  then have c: "propsChangedKey (cycle q (cycle p s)) =
       propsChangedKey (cycle p s)
       + (if (\<exists>i. i < length (Object_values (props q)) \<and> i < length (Object_values (props p))
                \<and> \<not> object_is (Object_values (props q) ! i) (Object_values (props p) ! i))
          then 1 else 0)"
    unfolding areHookInputsEqual_nth by auto
  have d: "fst (usePropsChangedKey args (cycle p s)) = propsChangedKey (cycle p s)"
    by (simp add: usePropsChangedKey_def)
  from a b c d show ?thesis by blast
qed

theorem C4_key_monotone_witness:
  "propsChangedKey (mount \<lparr>action = 0, children = None, props = [(''userId'', Num 1)]\<rparr>) = 1
   \<and> propsChangedKey
        (cycle \<lparr>action = 0, children = None, props = [(''userId'', Num 2)]\<rparr>
           (mount \<lparr>action = 0, children = None, props = [(''userId'', Num 1)]\<rparr>)) = 2
   \<and> propsChangedKey
        (cycle \<lparr>action = 0, children = None, props = [(''userId'', Num 2)]\<rparr>
           (cycle \<lparr>action = 0, children = None, props = [(''userId'', Num 2)]\<rparr>
              (mount \<lparr>action = 0, children = None, props = [(''userId'', Num 1)]\<rparr>))) = 2"
  using C4_key_monotone
    [of "fresh \<lparr>action = 0, children = None, props = [(''userId'', Num 1)]\<rparr>" "[]"
        "\<lparr>action = 0, children = None, props = [(''userId'', Num 1)]\<rparr>"
        "\<lparr>action = 0, children = None, props = [(''userId'', Num 2)]\<rparr>" "[]"]
    C4_key_monotone
    [of "mount \<lparr>action = 0, children = None, props = [(''userId'', Num 1)]\<rparr>" "[]"
        "\<lparr>action = 0, children = None, props = [(''userId'', Num 2)]\<rparr>"
        "\<lparr>action = 0, children = None, props = [(''userId'', Num 2)]\<rparr>" "[]"]
  by (simp add: mount_def fresh_def Object_values_def)

text \<open>
  C5, as stated: for every invocation the displayed content shows that invocation's
  settled result once it has settled. The invocation made at mount never gets there: its
  cycle has advanced the key, so the next render's cycle invokes the producer again and
  puts a new wrapper in its place. With the first promise settled and the second still
  outstanding, the instance displays the fallback.
\<close>

theorem C5_mount_invocation_superseded_counterexample:
  "calls (mount \<lparr>action = 0, children = None, props = [(''userId'', Num 1)]\<rparr>)
     = [(0, [(''userId'', Num 1)])]
   \<and> display (only_settled 0 (Fragment ''hello roggc''))
        (rendered \<lparr>action = 0, children = None, props = [(''userId'', Num 1)]\<rparr>
           (cycle \<lparr>action = 0, children = None, props = [(''userId'', Num 1)]\<rparr>
              (mount \<lparr>action = 0, children = None, props = [(''userId'', Num 1)]\<rparr>)))
     = Fragment ''loading...''"
  by (simp add: mount_def fresh_def rendered_JSX cycle_JSX cycle_calls cycle_key cycle_key_deps
      effect_runs_def children_or_default_def only_settled_def)

text \<open>
  C5, amended: the cycle that invokes the producer sets the content to the \<^verbatim>\<open>Suspense\<close>
  element around that invocation's promise, with the \<^verbatim>\<open>children\<close> of that render (the
  caller's, or the literal \<^verbatim>\<open>loading...\<close>) as fallback. When that cycle has not advanced
  the key, every later render returns this element as long as no change of the inputs is
  observed, and by the host's rule it shows the fallback while the promise is outstanding
  and the settled value once it has settled. When that cycle has advanced the key, as the
  cycle of the mount always does, the next render still returns the element, and the cycle
  of that render replaces it by the wrapper of the next invocation.
\<close>

theorem C5_suspense_until_superseded:
  assumes "calls (cycle p s) \<noteq> calls s"
  shows "calls (cycle p s) = calls s @ [(action p, props p)]
     \<and> JSX (cycle p s) =
         Suspense (case children p of None \<Rightarrow> Fragment ''loading...'' | Some c \<Rightarrow> c)
           (length (calls s))
     \<and> (propsChangedKey (cycle p s) = propsChangedKey s
          \<and> no_change_observed (Object_values (props p)) qs \<longrightarrow>
            rendered r (run qs (cycle p s)) = JSX (cycle p s)
            \<and> (settled (length (calls s)) = None \<longrightarrow>
                 display settled (rendered r (run qs (cycle p s))) =
                   display settled
                     (case children p of None \<Rightarrow> Fragment ''loading...'' | Some c \<Rightarrow> c))
            \<and> (settled (length (calls s)) = Some v \<longrightarrow>
                 display settled (rendered r (run qs (cycle p s))) = v))
     \<and> (propsChangedKey (cycle p s) \<noteq> propsChangedKey s \<longrightarrow>
          rendered q (cycle p s) = JSX (cycle p s)
          \<and> JSX (cycle q (cycle p s)) =
              Suspense (case children q of None \<Rightarrow> Fragment ''loading...'' | Some c \<Rightarrow> c)
                (Suc (length (calls s))))"
proof -
  let ?fb = "case children p of None \<Rightarrow> Fragment ''loading...'' | Some c \<Rightarrow> c"
  have e: "effect_runs [Num (int (propsChangedKey s))] (key_deps s)"
    using assms by (simp add: cycle_calls split: if_splits)
  have c: "calls (cycle p s) = calls s @ [(action p, props p)]"
    using e by (simp add: cycle_calls)
  have j: "JSX (cycle p s) = Suspense ?fb (length (calls s))"
    using e by (simp add: cycle_JSX children_or_default_def)
  have l: "rendered r (run qs (cycle p s)) = JSX (cycle p s)
            \<and> (settled (length (calls s)) = None \<longrightarrow>
                 display settled (rendered r (run qs (cycle p s))) = display settled ?fb)
            \<and> (settled (length (calls s)) = Some v \<longrightarrow>
                 display settled (rendered r (run qs (cycle p s))) = v)"
    if k: "propsChangedKey (cycle p s) = propsChangedKey s"
      and n: "no_change_observed (Object_values (props p)) qs"
  proof -
    have "key_deps (cycle p s) = Some [Num (int (propsChangedKey (cycle p s)))]"
      using k by (simp add: cycle_key_deps)
    then have "JSX (run qs (cycle p s)) = JSX (cycle p s)"
      using run_no_change_settled [of "cycle p s" "Object_values (props p)" qs] n
      by (simp add: cycle_args_deps)
    then have "rendered r (run qs (cycle p s)) = Suspense ?fb (length (calls s))"
      using j by (simp add: rendered_JSX)
    then show ?thesis using j by simp
  qed
  have u: "rendered q (cycle p s) = JSX (cycle p s)
          \<and> JSX (cycle q (cycle p s)) =
              Suspense (case children q of None \<Rightarrow> Fragment ''loading...'' | Some c \<Rightarrow> c)
                (Suc (length (calls s)))"
    if "propsChangedKey (cycle p s) \<noteq> propsChangedKey s"
    using that c
    by (simp add: rendered_JSX cycle_JSX [of q] cycle_key_deps effect_runs_key
        children_or_default_def)
  from c j l u show ?thesis by blast
qed

theorem C5_suspense_until_superseded_witness:
  "calls (cycle \<lparr>action = 0, children = Some (Fragment ''wait''), props = [(''userId'', Num 1)]\<rparr>
       (mount \<lparr>action = 0, children = Some (Fragment ''wait''), props = [(''userId'', Num 1)]\<rparr>))
     \<noteq> calls (mount \<lparr>action = 0, children = Some (Fragment ''wait''), props = [(''userId'', Num 1)]\<rparr>)
   \<and> no_change_observed (Object_values [(''userId'', Num 1)])
        [\<lparr>action = 0, children = Some (Fragment ''wait''), props = [(''userId'', Num 1)]\<rparr>,
         \<lparr>action = 0, children = Some (Fragment ''wait''), props = [(''userId'', Num 1)]\<rparr>]
   \<and> display (only_settled 0 (Fragment ''hello roggc''))
        (rendered \<lparr>action = 0, children = Some (Fragment ''wait''), props = [(''userId'', Num 1)]\<rparr>
          (run [\<lparr>action = 0, children = Some (Fragment ''wait''), props = [(''userId'', Num 1)]\<rparr>,
                \<lparr>action = 0, children = Some (Fragment ''wait''), props = [(''userId'', Num 1)]\<rparr>]
            (cycle \<lparr>action = 0, children = Some (Fragment ''wait''), props = [(''userId'', Num 1)]\<rparr>
              (mount \<lparr>action = 0, children = Some (Fragment ''wait''), props = [(''userId'', Num 1)]\<rparr>))))
     = Fragment ''wait''
   \<and> display (only_settled 1 (Fragment ''hello roggc''))
        (rendered \<lparr>action = 0, children = Some (Fragment ''wait''), props = [(''userId'', Num 1)]\<rparr>
          (run [\<lparr>action = 0, children = Some (Fragment ''wait''), props = [(''userId'', Num 1)]\<rparr>,
                \<lparr>action = 0, children = Some (Fragment ''wait''), props = [(''userId'', Num 1)]\<rparr>]
            (cycle \<lparr>action = 0, children = Some (Fragment ''wait''), props = [(''userId'', Num 1)]\<rparr>
              (mount \<lparr>action = 0, children = Some (Fragment ''wait''), props = [(''userId'', Num 1)]\<rparr>))))
     = Fragment ''hello roggc''"
  using C5_suspense_until_superseded
    [of "\<lparr>action = 0, children = Some (Fragment ''wait''), props = [(''userId'', Num 1)]\<rparr>"
        "mount \<lparr>action = 0, children = Some (Fragment ''wait''), props = [(''userId'', Num 1)]\<rparr>"
        "[\<lparr>action = 0, children = Some (Fragment ''wait''), props = [(''userId'', Num 1)]\<rparr>,
          \<lparr>action = 0, children = Some (Fragment ''wait''), props = [(''userId'', Num 1)]\<rparr>]"
        "\<lparr>action = 0, children = Some (Fragment ''wait''), props = [(''userId'', Num 1)]\<rparr>"
        "only_settled 0 (Fragment ''hello roggc'')" "Fragment ''x''"
        "\<lparr>action = 0, children = Some (Fragment ''wait''), props = [(''userId'', Num 1)]\<rparr>"]
    C5_suspense_until_superseded
    [of "\<lparr>action = 0, children = Some (Fragment ''wait''), props = [(''userId'', Num 1)]\<rparr>"
        "mount \<lparr>action = 0, children = Some (Fragment ''wait''), props = [(''userId'', Num 1)]\<rparr>"
        "[\<lparr>action = 0, children = Some (Fragment ''wait''), props = [(''userId'', Num 1)]\<rparr>,
          \<lparr>action = 0, children = Some (Fragment ''wait''), props = [(''userId'', Num 1)]\<rparr>]"
        "\<lparr>action = 0, children = Some (Fragment ''wait''), props = [(''userId'', Num 1)]\<rparr>"
        "only_settled 1 (Fragment ''hello roggc'')" "Fragment ''hello roggc''"
        "\<lparr>action = 0, children = Some (Fragment ''wait''), props = [(''userId'', Num 1)]\<rparr>"]
  by (simp add: mount_def fresh_def cycle_calls cycle_key cycle_key_deps cycle_args_deps
      effect_runs_def Object_values_def only_settled_def)

text \<open>
  C6. Before any producer invocation the displayed content is the fallback supplied by
  the caller, and the literal \<^verbatim>\<open>loading...\<close> when the caller supplies none: the first
  render of an instance, which no invocation precedes, returns exactly that.
\<close>

theorem C6_initial_content_is_fallback:
  "calls (fresh (p\<lparr>children := Some c\<rparr>)) = []
   \<and> rendered (p\<lparr>children := Some c\<rparr>) (fresh (p\<lparr>children := Some c\<rparr>)) = c
   \<and> calls (fresh (p\<lparr>children := None\<rparr>)) = []
   \<and> rendered (p\<lparr>children := None\<rparr>) (fresh (p\<lparr>children := None\<rparr>)) = Fragment ''loading...''"
  by (simp add: rendered_JSX fresh_def children_or_default_def)

text \<open>
  C7, as stated: a change is recorded whenever the length of the input list differs.
  It is not: \<^verbatim>\<open>[...args]\<close> is handed to \<^verbatim>\<open>useEffect\<close> as its dependency array, and React
  compares two dependency arrays over the positions both have. When a prop \<^verbatim>\<open>b\<close> is added
  after an unchanged prop \<^verbatim>\<open>a\<close>, the lengths differ and the key stays as it is.
\<close>

theorem C7_length_change_counterexample:
  "length (Object_values [(''a'', Num 1), (''b'', Num 2)]) \<noteq> length (Object_values [(''a'', Num 1)])
   \<and> propsChangedKey
        (cycle \<lparr>action = 0, children = None, props = [(''a'', Num 1), (''b'', Num 2)]\<rparr>
           (mount \<lparr>action = 0, children = None, props = [(''a'', Num 1)]\<rparr>))
     = propsChangedKey (mount \<lparr>action = 0, children = None, props = [(''a'', Num 1)]\<rparr>)"
  by (simp add: cycle_key cycle_args_deps mount_def effect_runs_def Object_values_def)

text \<open>
  C7, amended: change detection is positional and shallow. For a mounted instance a change
  is recorded (the key grows by 1) exactly when, at some position present in both this
  render's input list and the list of the render before, the two elements differ by
  \<^verbatim>\<open>Object.is\<close>; it is not recorded exactly when all such positions agree. Consequently a
  composite value that is equal in content to the one before but newly allocated counts as
  a change, and the producer is invoked again in the cycle that follows.
\<close>

theorem C7_change_is_positional_shallow:
  assumes "args_deps s = Some d"
  shows "((propsChangedKey (cycle p s) = propsChangedKey s + 1) =
           (\<exists>i. i < length (Object_values (props p)) \<and> i < length d
                \<and> \<not> object_is (Object_values (props p) ! i) (d ! i)))
     \<and> ((propsChangedKey (cycle p s) = propsChangedKey s) =
           (\<forall>i. i < length (Object_values (props p)) \<and> i < length d
                \<longrightarrow> object_is (Object_values (props p) ! i) (d ! i)))
     \<and> (i < length (Object_values (props p)) \<and> i < length d
          \<and> Object_values (props p) ! i = Obj b g \<and> d ! i = Obj a f
          \<and> value_equal (Obj b g) (Obj a f) \<and> b \<noteq> a \<longrightarrow>
            propsChangedKey (cycle p s) = propsChangedKey s + 1
            \<and> calls (cycle q (cycle p s)) = calls (cycle p s) @ [(action q, props q)])"
proof -
  let ?args = "Object_values (props p)"
  have k: "propsChangedKey (cycle p s) =
      (if areHookInputsEqual ?args d then propsChangedKey s else propsChangedKey s + 1)"
    using assms by (simp add: cycle_key effect_runs_def)
  have a: "(propsChangedKey (cycle p s) = propsChangedKey s + 1) =
           (\<exists>i. i < length ?args \<and> i < length d \<and> \<not> object_is (?args ! i) (d ! i))"
    using k by (simp add: areHookInputsEqual_nth)
  have b: "(propsChangedKey (cycle p s) = propsChangedKey s) =
           (\<forall>i. i < length ?args \<and> i < length d \<longrightarrow> object_is (?args ! i) (d ! i))"
    using k by (simp add: areHookInputsEqual_nth)
  have c: "propsChangedKey (cycle p s) = propsChangedKey s + 1
            \<and> calls (cycle q (cycle p s)) = calls (cycle p s) @ [(action q, props q)]"
    if h: "i < length ?args \<and> i < length d \<and> ?args ! i = Obj b g \<and> d ! i = Obj a f
          \<and> value_equal (Obj b g) (Obj a f) \<and> b \<noteq> a"
  proof -
    from h have "\<not> object_is (?args ! i) (d ! i)" by simp
    with h have "\<not> areHookInputsEqual ?args d"
      unfolding areHookInputsEqual_nth by blast
    then show ?thesis
      using assms k by (simp add: cycle2_calls effect_runs_def)
  qed
  from a b c show ?thesis by blast
qed

theorem C7_change_is_positional_shallow_witness:
  "args_deps (mount \<lparr>action = 0, children = None, props = [(''user'', Obj 100 [(''id'', 1)])]\<rparr>)
     = Some [Obj 100 [(''id'', 1)]]
   \<and> value_equal (Obj 200 [(''id'', 1)]) (Obj 100 [(''id'', 1)])
   \<and> propsChangedKey
        (cycle \<lparr>action = 0, children = None, props = [(''user'', Obj 200 [(''id'', 1)])]\<rparr>
           (mount \<lparr>action = 0, children = None, props = [(''user'', Obj 100 [(''id'', 1)])]\<rparr>))
      = propsChangedKey
          (mount \<lparr>action = 0, children = None, props = [(''user'', Obj 100 [(''id'', 1)])]\<rparr>) + 1"
  using C7_change_is_positional_shallow
    [of "mount \<lparr>action = 0, children = None, props = [(''user'', Obj 100 [(''id'', 1)])]\<rparr>"
        "[Obj 100 [(''id'', 1)]]"
        "\<lparr>action = 0, children = None, props = [(''user'', Obj 200 [(''id'', 1)])]\<rparr>"
        0 200 "[(''id'', 1)]" 100 "[(''id'', 1)]"
        "\<lparr>action = 0, children = None, props = [(''user'', Obj 200 [(''id'', 1)])]\<rparr>"]
  by (simp add: mount_def cycle_args_deps Object_values_def)

text \<open>
  C8. The increment has two phases. In the cycle whose render meets changed inputs, the
  hook returns the old key to that render, and the component's effect of that cycle is
  keyed on the old value; the incremented key is what the hook returns to the render
  after it. However many further renders run the comparison again without a change of the
  inputs, the key stays at the old value plus one: one update per change.
\<close>

theorem C8_two_phase_increment:
  assumes "args_deps s = Some d"
    and "\<not> areHookInputsEqual (Object_values (props p)) d"
    and "no_change_observed (Object_values (props p)) qs"
  shows "fst (usePropsChangedKey (Object_values (props p)) s) = propsChangedKey s
     \<and> key_deps (cycle p s) = Some [Num (int (propsChangedKey s))]
     \<and> fst (usePropsChangedKey args (cycle p s)) = propsChangedKey s + 1
     \<and> propsChangedKey (run qs (cycle p s)) = propsChangedKey s + 1"
proof -
  have k: "propsChangedKey (cycle p s) = propsChangedKey s + 1"
    using assms(1,2) by (simp add: cycle_key effect_runs_def)
  have "propsChangedKey (run qs (cycle p s)) = propsChangedKey (cycle p s)"
    using assms(3) by (intro run_no_change_key [of _ "Object_values (props p)"])
      (simp_all add: cycle_args_deps)
  with k show ?thesis
    by (simp add: usePropsChangedKey_def cycle_key_deps)
qed

theorem C8_two_phase_increment_witness:
  "args_deps (mount \<lparr>action = 0, children = None, props = [(''userId'', Num 1)]\<rparr>) = Some [Num 1]
   \<and> \<not> areHookInputsEqual (Object_values [(''userId'', Num 2)]) [Num 1]
   \<and> no_change_observed (Object_values [(''userId'', Num 2)])
        [\<lparr>action = 0, children = None, props = [(''userId'', Num 2)]\<rparr>,
         \<lparr>action = 0, children = None, props = [(''userId'', Num 2)]\<rparr>]
   \<and> propsChangedKey
        (run [\<lparr>action = 0, children = None, props = [(''userId'', Num 2)]\<rparr>,
              \<lparr>action = 0, children = None, props = [(''userId'', Num 2)]\<rparr>]
           (cycle \<lparr>action = 0, children = None, props = [(''userId'', Num 2)]\<rparr>
              (mount \<lparr>action = 0, children = None, props = [(''userId'', Num 1)]\<rparr>)))
      = propsChangedKey (mount \<lparr>action = 0, children = None, props = [(''userId'', Num 1)]\<rparr>) + 1"
  using C8_two_phase_increment
    [of "mount \<lparr>action = 0, children = None, props = [(''userId'', Num 1)]\<rparr>" "[Num 1]"
        "\<lparr>action = 0, children = None, props = [(''userId'', Num 2)]\<rparr>"
        "[\<lparr>action = 0, children = None, props = [(''userId'', Num 2)]\<rparr>,
          \<lparr>action = 0, children = None, props = [(''userId'', Num 2)]\<rparr>]" "[]"]
  by (simp add: mount_def cycle_args_deps Object_values_def)

text \<open>
  C9. When only the producer prop differs from the render before (same input values) and
  no advance of the key is waiting to be read, the cycle invokes nothing, leaves \<^verbatim>\<open>JSX\<close>
  and the key as they were, and the next render returns what this one returned. The
  producer is looked at again only when the key next advances: after a render \<open>r\<close> with
  changed inputs, which itself invokes nothing, the render \<open>r'\<close> that reads the advance
  calls the producer it was given.
\<close>

theorem C9_producer_change_alone:
  assumes "args_deps s = Some (Object_values (props p))"
    and "key_deps s = Some [Num (int (propsChangedKey s))]"
  shows "calls (cycle (p\<lparr>action := a\<rparr>) s) = calls s
     \<and> JSX (cycle (p\<lparr>action := a\<rparr>) s) = JSX s
     \<and> rendered q (cycle (p\<lparr>action := a\<rparr>) s) = rendered (p\<lparr>action := a\<rparr>) s
     \<and> propsChangedKey (cycle (p\<lparr>action := a\<rparr>) s) = propsChangedKey s
     \<and> (\<not> areHookInputsEqual (Object_values (props r)) (Object_values (props p)) \<longrightarrow>
          calls (cycle r (cycle (p\<lparr>action := a\<rparr>) s)) = calls s
          \<and> calls (cycle r' (cycle r (cycle (p\<lparr>action := a\<rparr>) s)))
              = calls s @ [(action r', props r')])"
proof -
  let ?q = "p\<lparr>action := a\<rparr>"
  have e: "\<not> effect_runs (Object_values (props ?q)) (args_deps s)"
    using assms(1) by (simp add: effect_runs_def areHookInputsEqual_refl)
  have c: "calls (cycle ?q s) = calls s" "JSX (cycle ?q s) = JSX s"
    using assms(2) by (simp_all add: cycle_calls cycle_JSX effect_runs_key)
  have k: "propsChangedKey (cycle ?q s) = propsChangedKey s"
    using e by (simp add: cycle_key)
  have n: "calls (cycle r (cycle ?q s)) = calls s
          \<and> calls (cycle r' (cycle r (cycle ?q s))) = calls s @ [(action r', props r')]"
    if "\<not> areHookInputsEqual (Object_values (props r)) (Object_values (props p))"
  proof -
    have "calls (cycle r (cycle ?q s)) = calls s"
      using e c by (simp add: cycle2_calls)
    moreover have "effect_runs (Object_values (props r)) (args_deps (cycle ?q s))"
      using that by (simp add: cycle_args_deps effect_runs_def)
    ultimately show ?thesis
      by (simp add: cycle2_calls [of r' r])
  qed
  from c k n show ?thesis
    by (simp add: rendered_JSX)
qed

theorem C9_producer_change_alone_witness:
  "args_deps (cycle \<lparr>action = 0, children = None, props = [(''userId'', Num 1)]\<rparr>
       (mount \<lparr>action = 0, children = None, props = [(''userId'', Num 1)]\<rparr>))
     = Some (Object_values [(''userId'', Num 1)])
   \<and> \<not> areHookInputsEqual (Object_values [(''userId'', Num 2)]) (Object_values [(''userId'', Num 1)])
   \<and> calls (cycle \<lparr>action = 5, children = None, props = [(''userId'', Num 1)]\<rparr>
        (cycle \<lparr>action = 0, children = None, props = [(''userId'', Num 1)]\<rparr>
           (mount \<lparr>action = 0, children = None, props = [(''userId'', Num 1)]\<rparr>)))
      = [(0, [(''userId'', Num 1)]), (0, [(''userId'', Num 1)])]
   \<and> calls (cycle \<lparr>action = 5, children = None, props = [(''userId'', Num 2)]\<rparr>
        (cycle \<lparr>action = 5, children = None, props = [(''userId'', Num 2)]\<rparr>
          (cycle \<lparr>action = 5, children = None, props = [(''userId'', Num 1)]\<rparr>
            (cycle \<lparr>action = 0, children = None, props = [(''userId'', Num 1)]\<rparr>
               (mount \<lparr>action = 0, children = None, props = [(''userId'', Num 1)]\<rparr>)))))
      = [(0, [(''userId'', Num 1)]), (0, [(''userId'', Num 1)]), (5, [(''userId'', Num 2)])]"
  using C9_producer_change_alone
    [of "cycle \<lparr>action = 0, children = None, props = [(''userId'', Num 1)]\<rparr>
           (mount \<lparr>action = 0, children = None, props = [(''userId'', Num 1)]\<rparr>)"
        "\<lparr>action = 0, children = None, props = [(''userId'', Num 1)]\<rparr>"
        5
        "\<lparr>action = 5, children = None, props = [(''userId'', Num 2)]\<rparr>"
        "\<lparr>action = 5, children = None, props = [(''userId'', Num 2)]\<rparr>"
        "\<lparr>action = 5, children = None, props = [(''userId'', Num 2)]\<rparr>"]
  by (simp add: mount_def fresh_def cycle_args_deps cycle_key_deps cycle_key cycle_calls
      effect_runs_def Object_values_def)

text \<open>
  C10. The names of the props play no part in change detection: when the values of two
  consecutive renders are equal by \<^verbatim>\<open>Object.is\<close> position by position, whatever the names
  they come under, the second render records no change (the key stays) and the cycle
  after it does not invoke the producer.
\<close>

theorem C10_prop_names_ignored:
  assumes "list_all2 object_is (Object_values (props q)) (Object_values (props p))"
  shows "propsChangedKey (cycle q (cycle p s)) = propsChangedKey (cycle p s)
     \<and> calls (cycle r (cycle q (cycle p s))) = calls (cycle q (cycle p s))"
proof -
  have "\<not> effect_runs (Object_values (props q)) (args_deps (cycle p s))"
    using assms by (simp add: cycle_args_deps effect_runs_def list_all2_areHookInputsEqual)
  then show ?thesis
    by (simp add: cycle_key [of q] cycle2_calls [of r q])
qed

theorem C10_prop_names_ignored_witness:
  "map fst [(''id'', Num 1)] \<noteq> map fst [(''userId'', Num 1)]
   \<and> list_all2 object_is (Object_values [(''id'', Num 1)]) (Object_values [(''userId'', Num 1)])
   \<and> propsChangedKey
        (cycle \<lparr>action = 0, children = None, props = [(''id'', Num 1)]\<rparr>
           (mount \<lparr>action = 0, children = None, props = [(''userId'', Num 1)]\<rparr>)) = 1
   \<and> calls (cycle \<lparr>action = 0, children = None, props = [(''id'', Num 1)]\<rparr>
        (cycle \<lparr>action = 0, children = None, props = [(''id'', Num 1)]\<rparr>
           (mount \<lparr>action = 0, children = None, props = [(''userId'', Num 1)]\<rparr>)))
      = [(0, [(''userId'', Num 1)]), (0, [(''id'', Num 1)])]"
  using C10_prop_names_ignored
    [of "\<lparr>action = 0, children = None, props = [(''id'', Num 1)]\<rparr>"
        "\<lparr>action = 0, children = None, props = [(''userId'', Num 1)]\<rparr>"
        "fresh \<lparr>action = 0, children = None, props = [(''userId'', Num 1)]\<rparr>"
        "\<lparr>action = 0, children = None, props = [(''id'', Num 1)]\<rparr>"]
  by (simp add: mount_def fresh_def cycle_args_deps cycle_key_deps cycle_key cycle_calls
      effect_runs_def Object_values_def)

end
